theory Spec2Isabelle
  imports Complex_Main "HOL-Library.Signed_Division"
begin

section \<open>Numbers\<close>

text \<open>
  The program computes with JavaScript numbers. The embedding idealises them: depths,
  velocities and landmark coordinates are \<^typ>\<open>real\<close>, array indices are \<^typ>\<open>int\<close>.
  Rounding, \<open>NaN\<close> and the infinities of IEEE doubles are outside the model; the one
  infinity the code uses as a value (\<open>minDistance = Infinity\<close>) is written as \<open>None\<close>.
  JavaScript's \<open>%\<close> is the remainder that takes the sign of the dividend, which is
  \<open>smod\<close> on \<^typ>\<open>int\<close>.
\<close>

section \<open>lib/utils: generateRandomPosition\<close>

record position =
  pos_x :: real
  pos_y :: real
  pos_z :: real
  pos_rotation :: real
  pos_scale :: real

definition generateRandomPosition :: "int \<Rightarrow> position" where
  "generateRandomPosition idx =
     (let seed = idx * 1337;
          x = ((seed smod 100) - 50) * 15;
          y = (((seed * 2) smod 100) - 50) * 10;
          z = idx * (- 400);
          rotation = (seed smod 30) - 15;
          scale = 0.8 + real_of_int (seed smod 40) / 100
      in \<lparr> pos_x = real_of_int x, pos_y = real_of_int y, pos_z = real_of_int z,
           pos_rotation = real_of_int rotation, pos_scale = scale \<rparr>)"

text \<open>
  The distance between two neighbouring items on the depth axis: the literal of
  \<open>idx * -400\<close>, under the name the specification gives it.
\<close>

definition stepDistance :: real where
  "stepDistance = 400"

section \<open>components/FloatingImage: the depth projection\<close>

text \<open>
  \<open>const z = useTransform(currentZ, (value) => position.z + value)\<close>: the depth at which
  an item is drawn, from its static depth and the camera depth it is given.
\<close>

definition relativeZ :: "position \<Rightarrow> real \<Rightarrow> real" where
  "relativeZ position v = pos_z position + v"

text \<open>
  Modelled from the spec: the range mapping of \<open>useTransform(value, input, output)\<close>
  belongs to the animation library and is not among the sources. The specification
  describes it as piecewise-linear interpolation over the breakpoints, holding the first
  output at and beyond the first breakpoint and the last output at and beyond the last
  one. The breakpoints and outputs themselves are those of \<open>FloatingImage\<close>.
\<close>

fun interpolate :: "real list \<Rightarrow> real list \<Rightarrow> real \<Rightarrow> real" where
  "interpolate (a # b # as) (p # q # ps) v =
     (if v \<le> a then p
      else if v \<le> b then p + (q - p) * ((v - a) / (b - a))
      else interpolate (b # as) (q # ps) v)"
| "interpolate as (p # ps) v = p"
| "interpolate as [] v = 0"

definition opacity :: "real \<Rightarrow> real" where
  "opacity z = interpolate [- 2000, - 500, 0, 400] [0, 1, 1, 0] z"

definition scale :: "real \<Rightarrow> real" where
  "scale z = interpolate [- 2000, 0] [0.5, 1.2] z"

definition blur :: "real \<Rightarrow> real" where
  "blur z = interpolate [- 2000, - 500, 0] [4, 0, 0] z"

section \<open>components/HandController: the detection loop\<close>

record landmark =
  lm_x :: real
  lm_y :: real

text \<open>
  \<open>landmarks[i]\<close> is \<open>undefined\<close> past the end of the array, and reading a coordinate of
  \<open>undefined\<close> throws; \<open>None\<close> stands for the thrown \<open>TypeError\<close>.
\<close>

definition landmarkAt :: "landmark list \<Rightarrow> nat \<Rightarrow> landmark option" where
  "landmarkAt landmarks i = (if i < length landmarks then Some (landmarks ! i) else None)"

definition pinchDistance :: "landmark \<Rightarrow> landmark \<Rightarrow> real" where
  "pinchDistance thumbTip indexTip =
     sqrt ((lm_x thumbTip - lm_x indexTip)\<^sup>2 + (lm_y thumbTip - lm_y indexTip)\<^sup>2)"

definition handScale :: "landmark \<Rightarrow> landmark \<Rightarrow> real" where
  "handScale wrist middleMCP =
     sqrt ((lm_x wrist - lm_x middleMCP)\<^sup>2 + (lm_y wrist - lm_y middleMCP)\<^sup>2)"

text \<open>\<open>handScale || 1\<close>: a number is falsy exactly when it is zero.\<close>

definition pinchDivisor :: "real \<Rightarrow> real" where
  "pinchDivisor hs = (if hs = 0 then 1 else hs)"

definition normalizedPinch :: "landmark \<Rightarrow> landmark \<Rightarrow> landmark \<Rightarrow> landmark \<Rightarrow> real" where
  "normalizedPinch thumbTip indexTip wrist middleMCP =
     pinchDistance thumbTip indexTip / pinchDivisor (handScale wrist middleMCP)"

definition PINCH_THRESHOLD :: real where
  "PINCH_THRESHOLD = 0.25"

text \<open>The per-frame boolean \<open>isPinching\<close> of \<open>predictWebcam\<close>, for one hand's landmarks.\<close>

definition framePinching :: "landmark list \<Rightarrow> bool option" where
  "framePinching landmarks =
     (case landmarkAt landmarks 4 of None \<Rightarrow> None | Some thumbTip \<Rightarrow>
      case landmarkAt landmarks 8 of None \<Rightarrow> None | Some indexTip \<Rightarrow>
      case landmarkAt landmarks 0 of None \<Rightarrow> None | Some wrist \<Rightarrow>
      case landmarkAt landmarks 9 of None \<Rightarrow> None | Some middleMCP \<Rightarrow>
        Some (normalizedPinch thumbTip indexTip wrist middleMCP < PINCH_THRESHOLD))"

text \<open>
  What one run of \<open>predictWebcam\<close> sees: either the guards fail (model, video, canvas or
  drawing context not ready) and nothing is processed, or the detector returns
  \<open>results.landmarks\<close>, a possibly missing list of hands.
\<close>

datatype frame = NotReady | Results "landmark list list option"

datatype callback = OnHandMove real bool | OnPinch bool

text \<open>
  One run of \<open>predictWebcam\<close> on the value of \<open>wasPinchingRef\<close>: the callbacks invoked, in
  order, and the new value of the ref. \<open>landmarks[9].y\<close> is read before any callback is
  invoked, so a thrown \<open>TypeError\<close> (\<open>None\<close>) leaves no callback behind.
\<close>

definition predictWebcam :: "bool \<Rightarrow> frame \<Rightarrow> (callback list \<times> bool) option" where
  "predictWebcam wasPinching f =
     (case f of
        NotReady \<Rightarrow> Some ([], wasPinching)
      | Results None \<Rightarrow>
          Some (OnHandMove 0.5 False # (if wasPinching then [OnPinch False] else []),
                (if wasPinching then False else wasPinching))
      | Results (Some []) \<Rightarrow>
          Some (OnHandMove 0.5 False # (if wasPinching then [OnPinch False] else []),
                (if wasPinching then False else wasPinching))
      | Results (Some (landmarks # others)) \<Rightarrow>
          (case landmarkAt landmarks 9 of None \<Rightarrow> None | Some l9 \<Rightarrow>
           case framePinching landmarks of None \<Rightarrow> None | Some pinching \<Rightarrow>
             Some (OnHandMove (lm_y l9) True #
                     (if pinching \<noteq> wasPinching then [OnPinch pinching] else []),
                   (if pinching \<noteq> wasPinching then pinching else wasPinching))))"

section \<open>App: camera depth, gesture velocity, selection, modal\<close>

text \<open>
  The values \<open>App\<close> holds: the motion values \<open>zPosition\<close> and \<open>smoothZ\<close>, the ref
  \<open>lastY\<close>, and the state variables of \<open>useState\<close> as they were last set.

  A handler is a closure of one render. It reads the motion values and the ref where
  they are, and the state variables (\<open>isDragging\<close>, \<open>handVelocity\<close>, \<open>isModalOpen\<close>) as
  they were at that render; what it sets is seen by the handlers of the next render.
  So a handler takes two records: \<open>r\<close>, the values at the render it closes over, and
  \<open>s\<close>, the values now, which it updates. From \<open>r\<close> only state variables are read.
\<close>

record 'img app =
  zPosition :: real
  smoothZ :: real
  isDragging :: bool
  lastY :: real
  handVelocity :: real
  isHandDetected :: bool
  isPinching :: bool
  selectedProduct :: "'img option"
  isModalOpen :: bool

text \<open>
  The list \<open>fashionImages\<close> is data of the application and a parameter here; its elements
  are opaque. \<open>positions\<close> is computed once from it.
\<close>

definition positions :: "'img list \<Rightarrow> position list" where
  "positions fashionImages =
     map (\<lambda>i. generateRandomPosition (int i)) [0 ..< length fashionImages]"

definition initial :: "'img app" where
  "initial = \<lparr> zPosition = 0, smoothZ = 0, isDragging = False, lastY = 0, handVelocity = 0,
               isHandDetected = False, isPinching = False, selectedProduct = None,
               isModalOpen = False \<rparr>"

definition handleHandMove :: "'img app \<Rightarrow> 'img app \<Rightarrow> real \<Rightarrow> bool \<Rightarrow> 'img app" where
  "handleHandMove r s y detected =
     (let s1 = s\<lparr>isHandDetected := detected\<rparr> in
      if \<not> detected \<or> isModalOpen r then s1\<lparr>handVelocity := 0\<rparr>
      else
        let deadzoneThreshold = 0.15;
            center = 0.5;
            diff = center - y
        in if \<bar>diff\<bar> < deadzoneThreshold then s1\<lparr>handVelocity := 0\<rparr>
           else
             let direction = sgn diff;
                 magnitude = \<bar>diff\<bar> - deadzoneThreshold;
                 speedMultiplier = 25
             in s1\<lparr>handVelocity := direction * magnitude * speedMultiplier\<rparr>)"

definition SWEET_SPOT_Z :: real where
  "SWEET_SPOT_Z = - 200"

text \<open>\<open>distance < minDistance\<close>, where \<open>None\<close> is the initial \<open>Infinity\<close>.\<close>

fun belowMin :: "real \<Rightarrow> real option \<Rightarrow> bool" where
  "belowMin distance None = True"
| "belowMin distance (Some minDistance) = (distance < minDistance)"

definition sweetDistance :: "real \<Rightarrow> position \<Rightarrow> real" where
  "sweetDistance currentCameraZ position =
     (let imgZ = pos_z position;
          relZ = imgZ + currentCameraZ
      in \<bar>relZ - SWEET_SPOT_Z\<bar>)"

text \<open>The body of the \<open>forEach\<close> in \<open>handlePinch\<close>, on \<open>(closestImg, minDistance)\<close>.\<close>

definition scanStep ::
  "real \<Rightarrow> 'img option \<times> real option \<Rightarrow> 'img \<times> position \<Rightarrow> 'img option \<times> real option" where
  "scanStep currentCameraZ acc item =
     (let distance = sweetDistance currentCameraZ (snd item)
      in if belowMin distance (snd acc) then (Some (fst item), Some distance) else acc)"

text \<open>
  The loop pairs \<open>fashionImages[i]\<close> with \<open>positions[i]\<close>; in \<open>App\<close> both lists have the
  same length, since \<open>positions\<close> is mapped from \<open>fashionImages\<close>.
\<close>

definition closestScan ::
  "'img list \<Rightarrow> position list \<Rightarrow> real \<Rightarrow> 'img option \<times> real option" where
  "closestScan fashionImages poss currentCameraZ =
     foldl (scanStep currentCameraZ) (None, None) (zip fashionImages poss)"

text \<open>
  The selection of \<open>handlePinch\<close>: the scan, then
  \<open>if (closestImg && minDistance < 1000)\<close>.
\<close>

definition resolve :: "'img list \<Rightarrow> position list \<Rightarrow> real \<Rightarrow> 'img option" where
  "resolve fashionImages poss currentCameraZ =
     (case closestScan fashionImages poss currentCameraZ of
        (Some closestImg, Some minDistance) \<Rightarrow>
          if minDistance < 1000 then Some closestImg else None
      | _ \<Rightarrow> None)"

definition handlePinch :: "'img list \<Rightarrow> 'img app \<Rightarrow> 'img app \<Rightarrow> bool \<Rightarrow> 'img app" where
  "handlePinch fashionImages r s pinching =
     (let s1 = s\<lparr>isPinching := pinching\<rparr> in
      if pinching then
        if isModalOpen r then s1\<lparr>isModalOpen := False\<rparr>
        else
          let currentCameraZ = zPosition s
          in case resolve fashionImages (positions fashionImages) currentCameraZ of
               Some closestImg \<Rightarrow>
                 s1\<lparr>selectedProduct := Some closestImg, isModalOpen := True,
                    handVelocity := 0\<rparr>
             | None \<Rightarrow> s1
      else s1)"

text \<open>
  The callback of \<open>useAnimationFrame\<close>. It is registered by an effect of the render
  that created it, and adds that render's \<open>handVelocity\<close> under that render's
  \<open>isModalOpen\<close>.
\<close>

definition animationFrame :: "'img app \<Rightarrow> 'img app \<Rightarrow> 'img app" where
  "animationFrame r s =
     (if \<bar>handVelocity r\<bar> > 0.1 \<and> \<not> isModalOpen r
      then s\<lparr>zPosition := zPosition s + handVelocity r\<rparr> else s)"

definition handlePointerDown :: "'img app \<Rightarrow> 'img app \<Rightarrow> real \<Rightarrow> 'img app" where
  "handlePointerDown r s clientY =
     (if isModalOpen r then s else s\<lparr>isDragging := True, lastY := clientY\<rparr>)"

definition handlePointerMove :: "'img app \<Rightarrow> 'img app \<Rightarrow> real \<Rightarrow> 'img app" where
  "handlePointerMove r s clientY =
     (if \<not> isDragging r \<or> isModalOpen r then s
      else
        let deltaY = clientY - lastY s;
            sensitivity = 2.5
        in s\<lparr>lastY := clientY, zPosition := zPosition s + deltaY * sensitivity\<rparr>)"

definition handlePointerUp :: "'img app \<Rightarrow> 'img app" where
  "handlePointerUp s = s\<lparr>isDragging := False\<rparr>"

definition handleWheel :: "'img app \<Rightarrow> 'img app \<Rightarrow> real \<Rightarrow> 'img app" where
  "handleWheel r s deltaY =
     (if isModalOpen r then s else s\<lparr>zPosition := zPosition s + deltaY * 1.5\<rparr>)"

text \<open>\<open>onClose\<close> of the product modal.\<close>

definition onClose :: "'img app \<Rightarrow> 'img app" where
  "onClose s = s\<lparr>isModalOpen := False\<rparr>"

section \<open>The event loop\<close>

text \<open>
  Everything runs on one thread, one handler at a time. An event is a capture frame of
  the detection loop, an animation frame, a pointer or wheel event, the modal's close
  action, a frame of the spring that eases \<open>smoothZ\<close> towards \<open>zPosition\<close>, or a render:
  React renders \<open>App\<close> again with the state as last set and runs its effects, after
  which every handler is a closure of that render. The model takes the render and its
  effects as one event. When a render happens is React's decision; the model lets it
  happen at any point between two other events, or not yet. The spring's law belongs to
  the animation library; the model lets it take any value, and no handler of the
  application writes \<open>smoothZ\<close>.
\<close>

datatype event =
    Capture frame
  | AnimationFrame
  | PointerDown real
  | PointerMove real
  | PointerUp
  | Wheel real
  | ModalClose
  | SpringFrame real
  | Render

text \<open>Both callbacks of one capture frame are closures of the same render.\<close>

fun dispatch :: "'img list \<Rightarrow> 'img app \<Rightarrow> 'img app \<Rightarrow> callback \<Rightarrow> 'img app" where
  "dispatch fashionImages r s (OnHandMove y detected) = handleHandMove r s y detected"
| "dispatch fashionImages r s (OnPinch pinching) = handlePinch fashionImages r s pinching"

text \<open>
  The state of the whole is the value of \<open>wasPinchingRef\<close>, the values at the last
  render, and the values now. \<open>None\<close> is a capture frame that threw.
\<close>

fun step ::
  "'img list \<Rightarrow> bool \<times> 'img app \<times> 'img app \<Rightarrow> event \<Rightarrow> (bool \<times> 'img app \<times> 'img app) option"
where
  "step fashionImages (w, r, s) (Capture f) =
     (case predictWebcam w f of
        None \<Rightarrow> None
      | Some (cbs, w') \<Rightarrow> Some (w', r, foldl (dispatch fashionImages r) s cbs))"
| "step fashionImages (w, r, s) AnimationFrame = Some (w, r, animationFrame r s)"
| "step fashionImages (w, r, s) (PointerDown clientY) = Some (w, r, handlePointerDown r s clientY)"
| "step fashionImages (w, r, s) (PointerMove clientY) = Some (w, r, handlePointerMove r s clientY)"
| "step fashionImages (w, r, s) PointerUp = Some (w, r, handlePointerUp s)"
| "step fashionImages (w, r, s) (Wheel deltaY) = Some (w, r, handleWheel r s deltaY)"
| "step fashionImages (w, r, s) ModalClose = Some (w, r, onClose s)"
| "step fashionImages (w, r, s) (SpringFrame v) = Some (w, r, s\<lparr>smoothZ := v\<rparr>)"
| "step fashionImages (w, r, s) Render = Some (w, s, s)"

fun run ::
  "'img list \<Rightarrow> bool \<times> 'img app \<times> 'img app \<Rightarrow> event list
     \<Rightarrow> (bool \<times> 'img app \<times> 'img app) option"
where
  "run fashionImages st [] = Some st"
| "run fashionImages st (e # es) =
     (case step fashionImages st e of None \<Rightarrow> None | Some st' \<Rightarrow> run fashionImages st' es)"

inductive reachable :: "'img list \<Rightarrow> bool \<times> 'img app \<times> 'img app \<Rightarrow> bool"
  for fashionImages
where
  start: "reachable fashionImages (False, initial, initial)"
| next_state: "reachable fashionImages st \<Longrightarrow> step fashionImages st e = Some st'
     \<Longrightarrow> reachable fashionImages st'"

section \<open>Auxiliary notions for the properties\<close>

text \<open>The arguments of the \<open>onPinch\<close> calls among a list of callbacks, in order.\<close>

fun pinchEvents :: "callback list \<Rightarrow> bool list" where
  "pinchEvents [] = []"
| "pinchEvents (OnPinch p # cbs) = p # pinchEvents cbs"
| "pinchEvents (OnHandMove y d # cbs) = pinchEvents cbs"

text \<open>The detection loop over several frames: all callbacks, and the final ref.\<close>

fun captureAll :: "bool \<Rightarrow> frame list \<Rightarrow> (callback list \<times> bool) option" where
  "captureAll w [] = Some ([], w)"
| "captureAll w (f # fs) =
     (case predictWebcam w f of
        None \<Rightarrow> None
      | Some (cbs, w') \<Rightarrow>
          (case captureAll w' fs of
             None \<Rightarrow> None
           | Some (cbs', w'') \<Rightarrow> Some (cbs @ cbs', w'')))"

text \<open>A frame on which the detector found one hand (\<open>numHands: 1\<close>).\<close>

definition handFrame :: "landmark list \<Rightarrow> frame" where
  "handFrame landmarks = Results (Some [landmarks])"

text \<open>A frame on which the detector ran and found no hand.\<close>

definition noHand :: "frame \<Rightarrow> bool" where
  "noHand f = (f = Results None \<or> f = Results (Some []))"

text \<open>The transitions of a sequence of booleans, starting from a previous value.\<close>

fun edges :: "bool \<Rightarrow> bool list \<Rightarrow> bool list" where
  "edges w [] = []"
| "edges w (b # bs) = (if b \<noteq> w then [b] else []) @ edges b bs"

subsection \<open>Example data\<close>

text \<open>Five products, named by their index.\<close>

definition exampleImages :: "nat list" where
  "exampleImages = [0, 1, 2, 3, 4]"

text \<open>
  A full set of 21 landmarks with the four that the code reads (wrist 0, thumb tip 4,
  index tip 8, middle-finger base 9) placed as given.
\<close>

definition hand :: "landmark \<Rightarrow> landmark \<Rightarrow> landmark \<Rightarrow> landmark \<Rightarrow> landmark list" where
  "hand wrist thumbTip indexTip middleMCP =
     (replicate 21 \<lparr>lm_x = 0.5, lm_y = 0.5\<rparr>)
       [0 := wrist, 4 := thumbTip, 8 := indexTip, 9 := middleMCP]"

definition openHand :: "landmark list" where
  "openHand = hand \<lparr>lm_x = 0.5, lm_y = 1\<rparr> \<lparr>lm_x = 0, lm_y = 0.5\<rparr> \<lparr>lm_x = 1, lm_y = 0.5\<rparr>
                   \<lparr>lm_x = 0.5, lm_y = 0\<rparr>"

definition pinchedHand :: "landmark list" where
  "pinchedHand = hand \<lparr>lm_x = 0.5, lm_y = 1\<rparr> \<lparr>lm_x = 0.5, lm_y = 0.5\<rparr>
                      \<lparr>lm_x = 0.5, lm_y = 0.5\<rparr> \<lparr>lm_x = 0.5, lm_y = 0\<rparr>"

text \<open>A hand cut off after nine landmarks: it has no landmark 9.\<close>

definition shortHand :: "landmark list" where
  "shortHand = take 9 openHand"

text \<open>Three items whose depths are \<open>-2000\<close>, \<open>-205\<close> and \<open>-800\<close>.\<close>

definition specPositions :: "position list" where
  "specPositions =
     [\<lparr>pos_x = 0, pos_y = 0, pos_z = - 2000, pos_rotation = 0, pos_scale = 1\<rparr>,
      \<lparr>pos_x = 0, pos_y = 0, pos_z = - 205, pos_rotation = 0, pos_scale = 1\<rparr>,
      \<lparr>pos_x = 0, pos_y = 0, pos_z = - 800, pos_rotation = 0, pos_scale = 1\<rparr>]"

text \<open>
  The values after one capture frame with an open hand at the top of the picture: the
  gesture velocity is \<open>(0.5 - 0.15) * 25 = 8.75\<close>.
\<close>

definition movingState :: "nat app" where
  "movingState = \<lparr> zPosition = 0, smoothZ = 0, isDragging = False, lastY = 0,
                   handVelocity = 8.75, isHandDetected = True, isPinching = False,
                   selectedProduct = None, isModalOpen = False \<rparr>"

text \<open>The values after a capture frame with a pinching hand: the modal shows product 0.\<close>

definition pinchedState :: "nat app" where
  "pinchedState = \<lparr> zPosition = 0, smoothZ = 0, isDragging = False, lastY = 0,
                    handVelocity = 0, isHandDetected = True, isPinching = True,
                    selectedProduct = Some 0, isModalOpen = True \<rparr>"

text \<open>The values after pressing the pointer at 0.\<close>

definition pressedState :: "nat app" where
  "pressedState = \<lparr> zPosition = 0, smoothZ = 0, isDragging = True, lastY = 0,
                    handVelocity = 0, isHandDetected = False, isPinching = False,
                    selectedProduct = None, isModalOpen = False \<rparr>"

text \<open>
  The values after pressing the pointer at 0 and dragging it to 400, before the spring
  has moved: the camera depth is 1000, the depth on screen is still 0.
\<close>

definition draggedState :: "nat app" where
  "draggedState = \<lparr> zPosition = 1000, smoothZ = 0, isDragging = True, lastY = 400,
                    handVelocity = 0, isHandDetected = False, isPinching = False,
                    selectedProduct = None, isModalOpen = False \<rparr>"

section \<open>PositionGenerator: depth ordering\<close>

lemma generateRandomPosition_z: "pos_z (generateRandomPosition idx) = - (400 * real_of_int idx)"
  by (simp add: generateRandomPosition_def Let_def)

text \<open>
  Claim C7. The depth of item \<open>i\<close> is \<open>i * -stepDistance\<close> with the fixed step 400, so the
  depths of any two items \<open>i\<close> and \<open>j\<close> differ by exactly \<open>stepDistance * (i - j)\<close> (the
  depth of \<open>j\<close> minus the depth of \<open>i\<close>; in absolute value \<open>stepDistance * |i - j|\<close>), and
  the items are strictly ordered in depth: a larger index lies strictly deeper, and
  different indices never share a depth.
\<close>

theorem generateRandomPosition_depth_step:
  "pos_z (generateRandomPosition i) = real_of_int i * (- stepDistance)
   \<and> pos_z (generateRandomPosition j) - pos_z (generateRandomPosition i)
       = stepDistance * real_of_int (i - j)
   \<and> \<bar>pos_z (generateRandomPosition i) - pos_z (generateRandomPosition j)\<bar>
       = stepDistance * \<bar>real_of_int (i - j)\<bar>
   \<and> (pos_z (generateRandomPosition i) = pos_z (generateRandomPosition j)) = (i = j)
   \<and> (pos_z (generateRandomPosition j) < pos_z (generateRandomPosition i)) = (i < j)"
proof -
  have "\<bar>real_of_int j * 400 - real_of_int i * 400\<bar> = \<bar>real_of_int i - real_of_int j\<bar> * 400"
    by (cases "i \<le> j") simp_all
  then show ?thesis
    by (simp add: generateRandomPosition_z stepDistance_def algebra_simps)
qed

theorem generateRandomPosition_depth_step_witness:
  "pos_z (generateRandomPosition 3) = - 1200
   \<and> pos_z (generateRandomPosition 1) - pos_z (generateRandomPosition 3) = stepDistance * 2
   \<and> pos_z (generateRandomPosition 3) < pos_z (generateRandomPosition 1)"
  using generateRandomPosition_depth_step [of 3 1]
  by (simp add: stepDistance_def)

section \<open>DepthMapper: opacity and scale\<close>

lemma opacity_cases:
  "opacity z = (if z \<le> - 2000 then 0 else if z \<le> - 500 then (z + 2000) / 1500
                else if z \<le> 0 then 1 else if z \<le> 400 then 1 - z / 400 else 0)"
  by (simp add: opacity_def field_simps)

lemma scale_cases:
  "scale z = (if z \<le> - 2000 then 0.5 else if z \<le> 0 then 0.5 + 0.7 * ((z + 2000) / 2000)
              else 1.2)"
  by (simp add: scale_def field_simps)

lemma opacity_rising: "a \<le> b \<Longrightarrow> b \<le> - 500 \<Longrightarrow> opacity a \<le> opacity b"
  by (simp add: opacity_cases field_simps)

lemma opacity_plateau: "- 500 \<le> a \<Longrightarrow> a \<le> 0 \<Longrightarrow> opacity a = 1"
  by (auto simp add: opacity_cases field_simps)

lemma opacity_falling: "0 \<le> a \<Longrightarrow> a \<le> b \<Longrightarrow> opacity b \<le> opacity a"
  by (auto simp add: opacity_cases field_simps)

lemma scale_mono: "a \<le> b \<Longrightarrow> scale a \<le> scale b"
  by (auto simp add: scale_cases field_simps)

lemma scale_strict: "- 2000 \<le> a \<Longrightarrow> a < b \<Longrightarrow> b \<le> 0 \<Longrightarrow> scale a < scale b"
  by (auto simp add: scale_cases field_simps)

text \<open>
  Claim C8. Opacity and scale are monotonic in the effective depth within each segment
  between breakpoints: opacity does not decrease up to \<open>-500\<close>, holds 1 from \<open>-500\<close> to
  0, and does not increase from 0 on; scale never decreases, and strictly increases
  between \<open>-2000\<close> and 0. At the reference points, opacity is 0 at \<open>-2000\<close> and 1 at 0,
  and scale is 1.2 at 0. The effective depth of an item is its own depth plus the
  camera depth.
\<close>

theorem depth_projection_monotonic:
  "(a \<le> b \<and> b \<le> - 500 \<longrightarrow> opacity a \<le> opacity b)
   \<and> (- 500 \<le> a \<and> a \<le> 0 \<longrightarrow> opacity a = 1)
   \<and> (0 \<le> a \<and> a \<le> b \<longrightarrow> opacity b \<le> opacity a)
   \<and> (a \<le> b \<longrightarrow> scale a \<le> scale b)
   \<and> (- 2000 \<le> a \<and> a < b \<and> b \<le> 0 \<longrightarrow> scale a < scale b)
   \<and> opacity (- 2000) = 0 \<and> opacity 0 = 1 \<and> scale 0 = 1.2
   \<and> opacity (relativeZ position cameraDepth) = opacity (pos_z position + cameraDepth)"
  using opacity_rising [of a b] opacity_plateau [of a] opacity_falling [of a b]
    scale_mono [of a b] scale_strict [of a b]
  by (simp add: relativeZ_def) (simp add: opacity_def scale_def)

theorem depth_projection_monotonic_witness:
  "opacity (- 1250) = 0.5 \<and> opacity (- 500) = 1 \<and> opacity (- 1250) \<le> opacity (- 500)
   \<and> opacity 200 = 0.5 \<and> opacity 200 \<le> opacity 0
   \<and> scale (- 1000) = 0.85 \<and> scale (- 1000) < scale 0"
  using depth_projection_monotonic [of "- 1250" "- 500"] depth_projection_monotonic [of 0 200]
    depth_projection_monotonic [of "- 1000" 0]
  by (simp add: opacity_def scale_def)

section \<open>GestureInterpreter: the pinch measure\<close>

lemma framePinching_Some:
  "framePinching landmarks = Some p \<Longrightarrow> 9 < length landmarks"
  by (simp add: framePinching_def landmarkAt_def split: if_splits)

lemma framePinching_full:
  "9 < length landmarks \<Longrightarrow> framePinching landmarks =
     Some (normalizedPinch (landmarks ! 4) (landmarks ! 8) (landmarks ! 0) (landmarks ! 9)
            < PINCH_THRESHOLD)"
  by (auto simp add: framePinching_def landmarkAt_def)

lemma openHand_pinching: "framePinching openHand = Some False"
  by (simp add: framePinching_full openHand_def hand_def normalizedPinch_def pinchDistance_def
      handScale_def pinchDivisor_def PINCH_THRESHOLD_def)

lemma pinchedHand_pinching: "framePinching pinchedHand = Some True"
  by (simp add: framePinching_full pinchedHand_def hand_def normalizedPinch_def pinchDistance_def
      handScale_def pinchDivisor_def PINCH_THRESHOLD_def)

section \<open>GestureInterpreter: edge-triggered pinch events\<close>

lemma predictWebcam_NotReady: "predictWebcam w NotReady = Some ([], w)"
  by (simp add: predictWebcam_def)

lemma predictWebcam_noHand:
  "r = None \<or> r = Some [] \<Longrightarrow> predictWebcam w (Results r) =
     Some (OnHandMove 0.5 False # (if w then [OnPinch False] else []), False)"
  by (auto simp add: predictWebcam_def)

lemma predictWebcam_hand:
  "predictWebcam w (Results (Some (landmarks # others))) =
     (case landmarkAt landmarks 9 of None \<Rightarrow> None | Some l9 \<Rightarrow>
      case framePinching landmarks of None \<Rightarrow> None | Some pinching \<Rightarrow>
        Some (OnHandMove (lm_y l9) True # (if pinching \<noteq> w then [OnPinch pinching] else []),
              pinching))"
proof (cases "landmarkAt landmarks 9")
  case None
  then show ?thesis by (simp add: predictWebcam_def)
next
  case l9: (Some l9)
  show ?thesis
  proof (cases "framePinching landmarks")
    case None
    with l9 show ?thesis by (simp add: predictWebcam_def)
  next
    case (Some p)
    with l9 show ?thesis by (cases p; cases w) (simp_all add: predictWebcam_def)
  qed
qed

lemma frame_shapes:
  obtains "f = NotReady" | r where "f = Results r" "r = None \<or> r = Some []"
  | l ls where "f = Results (Some (l # ls))"
proof (cases f)
  case NotReady
  then show ?thesis using that by blast
next
  case (Results r)
  show ?thesis
  proof (cases r)
    case None
    with Results show ?thesis using that by blast
  next
    case (Some hs)
    with Results show ?thesis using that by (cases hs) blast+
  qed
qed

lemma predictWebcam_edge:
  assumes "predictWebcam w f = Some (cbs, w')"
  shows "pinchEvents cbs = (if w' \<noteq> w then [w'] else [])"
proof (cases f rule: frame_shapes)
  case 1
  with assms show ?thesis by (simp add: predictWebcam_NotReady)
next
  case (2 r)
  from 2(2) have "predictWebcam w (Results r) =
     Some (OnHandMove 0.5 False # (if w then [OnPinch False] else []), False)"
    by (rule predictWebcam_noHand)
  with assms 2(1) show ?thesis by (cases w) auto
next
  case (3 l ls)
  with assms have h: "predictWebcam w (Results (Some (l # ls))) = Some (cbs, w')" by simp
  then obtain l9 where l9: "landmarkAt l 9 = Some l9"
    by (cases "landmarkAt l 9") (simp_all add: predictWebcam_hand)
  from h l9 obtain p where p: "framePinching l = Some p"
    by (cases "framePinching l") (simp_all add: predictWebcam_hand)
  from h l9 p show ?thesis
    by (cases "p = w") (auto simp add: predictWebcam_hand)
qed

lemma predictWebcam_hand_pinching:
  assumes "framePinching landmarks = Some p"
  shows "predictWebcam w (Results (Some (landmarks # others))) =
     Some (OnHandMove (lm_y (landmarks ! 9)) True # (if p \<noteq> w then [OnPinch p] else []), p)"
proof -
  from assms have "9 < length landmarks" by (rule framePinching_Some)
  then have "landmarkAt landmarks 9 = Some (landmarks ! 9)" by (simp add: landmarkAt_def)
  with assms show ?thesis by (simp add: predictWebcam_hand)
qed

lemma openHand_frame:
  "predictWebcam w (handFrame openHand)
     = Some (OnHandMove 0 True # (if w then [OnPinch False] else []), False)"
proof -
  have "openHand ! 9 = \<lparr>lm_x = 0.5, lm_y = 0\<rparr>" by (simp add: openHand_def hand_def)
  then show ?thesis
    unfolding handFrame_def by (simp add: predictWebcam_hand_pinching [OF openHand_pinching])
qed

lemma pinchedHand_frame:
  "predictWebcam w (handFrame pinchedHand)
     = Some (OnHandMove 0 True # (if w then [] else [OnPinch True]), True)"
proof -
  have "pinchedHand ! 9 = \<lparr>lm_x = 0.5, lm_y = 0\<rparr>" by (simp add: pinchedHand_def hand_def)
  then show ?thesis
    unfolding handFrame_def by (simp add: predictWebcam_hand_pinching [OF pinchedHand_pinching])
qed

lemma pinchEvents_append: "pinchEvents (xs @ ys) = pinchEvents xs @ pinchEvents ys"
  by (induction xs rule: pinchEvents.induct) simp_all

text \<open>Over any run of frames with a hand, the pinch events are the transitions.\<close>

lemma captureAll_edges:
  "map framePinching hands = map Some bs \<Longrightarrow>
     \<exists>cbs. captureAll w (map handFrame hands) = Some (cbs, last (w # bs))
          \<and> pinchEvents cbs = edges w bs"
proof (induction hands arbitrary: w bs)
  case Nil
  then show ?case by simp
next
  case (Cons h hs)
  then obtain b bs' where bs: "bs = b # bs'" and b: "framePinching h = Some b"
    and rest: "map framePinching hs = map Some bs'"
    by (cases bs) auto
  from Cons.IH [OF rest, of b] obtain cbs where
    cbs: "captureAll b (map handFrame hs) = Some (cbs, last (b # bs'))"
      "pinchEvents cbs = edges b bs'" by blast
  from b have pw: "predictWebcam w (handFrame h) =
     Some (OnHandMove (lm_y (h ! 9)) True # (if b \<noteq> w then [OnPinch b] else []), b)"
    unfolding handFrame_def by (rule predictWebcam_hand_pinching)
  show ?case
    using cbs pw bs by (simp add: pinchEvents_append)
qed

text \<open>
  Claim C6. Pinch events are emitted only on transitions of the per-frame pinch boolean:
  whatever a frame is, the pinch events it emits are the new value of \<open>wasPinchingRef\<close>
  if that value changed, and none if it held steady; on a frame with a hand the new
  value is the frame's \<open>isPinching\<close>. In particular, five frames with a hand whose
  \<open>isPinching\<close> values are false, true, true, true, false, from a non-pinching previous
  state, emit exactly two pinch events: true (open), then false (close).
\<close>

theorem pinch_edge_triggered:
  "(predictWebcam w f = Some (cbs, w') \<longrightarrow> pinchEvents cbs = (if w' \<noteq> w then [w'] else []))
   \<and> (framePinching landmarks = Some p \<longrightarrow>
        (case predictWebcam w (Results (Some (landmarks # others))) of
           None \<Rightarrow> False
         | Some (cbs1, w1) \<Rightarrow> w1 = p \<and> pinchEvents cbs1 = (if p \<noteq> w then [p] else [])))
   \<and> (map framePinching hands = map Some [False, True, True, True, False] \<longrightarrow>
        (case captureAll False (map handFrame hands) of
           None \<Rightarrow> False
         | Some (cbs2, w2) \<Rightarrow> pinchEvents cbs2 = [True, False] \<and> w2 = False))"
proof (intro conjI impI)
  assume "predictWebcam w f = Some (cbs, w')"
  then show "pinchEvents cbs = (if w' \<noteq> w then [w'] else [])" by (rule predictWebcam_edge)
next
  assume "framePinching landmarks = Some p"
  then show "case predictWebcam w (Results (Some (landmarks # others))) of
           None \<Rightarrow> False
         | Some (cbs1, w1) \<Rightarrow> w1 = p \<and> pinchEvents cbs1 = (if p \<noteq> w then [p] else [])"
    by (simp add: predictWebcam_hand_pinching)
next
  assume "map framePinching hands = map Some [False, True, True, True, False]"
  from captureAll_edges [OF this, of False]
  show "case captureAll False (map handFrame hands) of
           None \<Rightarrow> False
         | Some (cbs2, w2) \<Rightarrow> pinchEvents cbs2 = [True, False] \<and> w2 = False"
    by auto
qed

theorem pinch_edge_triggered_witness:
  "map framePinching [openHand, pinchedHand, pinchedHand, pinchedHand, openHand]
     = map Some [False, True, True, True, False]
   \<and> captureAll False (map handFrame [openHand, pinchedHand, pinchedHand, pinchedHand, openHand])
       = Some ([OnHandMove 0 True, OnHandMove 0 True, OnPinch True, OnHandMove 0 True,
                OnHandMove 0 True, OnHandMove 0 True, OnPinch False], False)
   \<and> pinchEvents [OnHandMove 0 True, OnHandMove 0 True, OnPinch True, OnHandMove 0 True,
                   OnHandMove 0 True, OnHandMove 0 True, OnPinch False] = [True, False]"
  using pinch_edge_triggered [of False NotReady "[]" False openHand False "[]"
      "[openHand, pinchedHand, pinchedHand, pinchedHand, openHand]"]
  by (simp add: openHand_pinching pinchedHand_pinching openHand_frame pinchedHand_frame)

section \<open>GestureInterpreter: the pinch normalisation\<close>

lemma framePinching_defined: "(framePinching landmarks \<noteq> None) = (9 < length landmarks)"
proof (cases "9 < length landmarks")
  case True
  then show ?thesis by (simp add: framePinching_full)
next
  case False
  then have "landmarkAt landmarks 9 = None" by (simp add: landmarkAt_def)
  with False show ?thesis by (simp add: framePinching_def split: option.splits)
qed

lemma predictWebcam_defined:
  "(predictWebcam w (Results (Some (landmarks # others))) \<noteq> None) = (9 < length landmarks)"
proof (cases "9 < length landmarks")
  case True
  then have "landmarkAt landmarks 9 = Some (landmarks ! 9)" by (simp add: landmarkAt_def)
  with True show ?thesis by (simp add: predictWebcam_hand framePinching_full)
next
  case False
  then have "landmarkAt landmarks 9 = None" by (simp add: landmarkAt_def)
  with False show ?thesis by (simp add: predictWebcam_hand)
qed

text \<open>
  Claim C10, as the code has it. The pinch normalisation never divides by zero: the
  divisor is the hand scale, or 1 when the hand scale is 0, and so always positive; the
  normalised pinch value is the pinch distance over that divisor (the pinch distance
  itself when the hand scale is 0). The comparison with the threshold, and with it the
  frame, is defined exactly for the landmark sets that have the landmarks the code
  reads, those with more than nine landmarks (a full set has 21); it then yields a
  boolean. For a shorter set reading a landmark throws.
\<close>

theorem pinchDivisor_nonzero:
  "pinchDivisor (handScale wrist middleMCP) > 0
   \<and> (handScale wrist middleMCP = 0 \<longrightarrow>
        pinchDivisor (handScale wrist middleMCP) = 1
        \<and> normalizedPinch thumbTip indexTip wrist middleMCP = pinchDistance thumbTip indexTip)
   \<and> normalizedPinch thumbTip indexTip wrist middleMCP * pinchDivisor (handScale wrist middleMCP)
        = pinchDistance thumbTip indexTip
   \<and> (framePinching landmarks \<noteq> None) = (9 < length landmarks)
   \<and> (predictWebcam w (Results (Some (landmarks # others))) \<noteq> None) = (9 < length landmarks)
   \<and> (9 < length landmarks \<longrightarrow>
        framePinching landmarks =
          Some (normalizedPinch (landmarks ! 4) (landmarks ! 8) (landmarks ! 0) (landmarks ! 9)
                  < PINCH_THRESHOLD))"
proof -
  have nonneg: "0 \<le> handScale wrist middleMCP" by (simp add: handScale_def)
  then have pos: "pinchDivisor (handScale wrist middleMCP) > 0" by (simp add: pinchDivisor_def)
  have div: "normalizedPinch thumbTip indexTip wrist middleMCP
               * pinchDivisor (handScale wrist middleMCP) = pinchDistance thumbTip indexTip"
    using pos by (simp add: normalizedPinch_def)
  have zero: "pinchDivisor (handScale wrist middleMCP) = 1
        \<and> normalizedPinch thumbTip indexTip wrist middleMCP = pinchDistance thumbTip indexTip"
    if "handScale wrist middleMCP = 0"
    using that by (simp add: pinchDivisor_def normalizedPinch_def)
  from pos div zero show ?thesis
    using framePinching_defined [of landmarks] predictWebcam_defined [of w landmarks others]
      framePinching_full [of landmarks]
    by blast
qed

theorem pinchDivisor_nonzero_witness:
  "handScale \<lparr>lm_x = 0.5, lm_y = 0.5\<rparr> \<lparr>lm_x = 0.5, lm_y = 0.5\<rparr> = 0
   \<and> pinchDivisor (handScale \<lparr>lm_x = 0.5, lm_y = 0.5\<rparr> \<lparr>lm_x = 0.5, lm_y = 0.5\<rparr>) = 1
   \<and> normalizedPinch \<lparr>lm_x = 0, lm_y = 0.5\<rparr> \<lparr>lm_x = 1, lm_y = 0.5\<rparr>
        \<lparr>lm_x = 0.5, lm_y = 0.5\<rparr> \<lparr>lm_x = 0.5, lm_y = 0.5\<rparr> = 1
   \<and> 9 < length pinchedHand \<and> framePinching pinchedHand = Some True
   \<and> predictWebcam False (Results (Some [pinchedHand])) \<noteq> None"
  using pinchDivisor_nonzero [of "\<lparr>lm_x = 0.5, lm_y = 0.5\<rparr>" "\<lparr>lm_x = 0.5, lm_y = 0.5\<rparr>"
      "\<lparr>lm_x = 0, lm_y = 0.5\<rparr>" "\<lparr>lm_x = 1, lm_y = 0.5\<rparr>" pinchedHand False "[]"]
  by (simp add: handScale_def pinchDistance_def pinchDivisor_def normalizedPinch_def
      PINCH_THRESHOLD_def pinchedHand_def hand_def)

text \<open>
  The claim as stated has the comparison defined for every landmark input. A hand of
  nine landmarks has no landmark 9: reading its \<open>y\<close> throws, the frame yields no
  comparison and no callback.
\<close>

theorem shortHand_counterexample:
  "length shortHand = 9
   \<and> framePinching shortHand = None
   \<and> predictWebcam False (handFrame shortHand) = None"
proof -
  have len: "length shortHand = 9" by (simp add: shortHand_def openHand_def hand_def)
  then have short: "\<not> 9 < length shortHand" by simp
  from short have "framePinching shortHand = None"
    using framePinching_defined [of shortHand] by blast
  moreover from short have "predictWebcam False (handFrame shortHand) = None"
    unfolding handFrame_def using predictWebcam_defined [of False shortHand "[]"] by blast
  ultimately show ?thesis using len by blast
qed

section \<open>VelocityController\<close>

lemma handleHandMove_keeps:
  "zPosition (handleHandMove r s y d) = zPosition s"
  "isModalOpen (handleHandMove r s y d) = isModalOpen s"
  "isPinching (handleHandMove r s y d) = isPinching s"
  by (simp_all add: handleHandMove_def Let_def)

lemma handleHandMove_open: "isModalOpen r \<Longrightarrow> handVelocity (handleHandMove r s y d) = 0"
  by (simp add: handleHandMove_def Let_def)

section \<open>SelectionResolver\<close>

lemmas eval_defs = resolve_def closestScan_def positions_def exampleImages_def
  generateRandomPosition_def upt_rec Let_def signed_modulo_int_def scanStep_def
  sweetDistance_def SWEET_SPOT_Z_def

lemma positions_length: "length (positions imgs) = length imgs"
  by (simp add: positions_def)

lemma resolve_example0: "resolve exampleImages (positions exampleImages) 0 = Some 0"
  by (simp add: eval_defs)

lemma resolve_example1000: "resolve exampleImages (positions exampleImages) 1000 = Some 3"
  by (simp add: eval_defs)

text \<open>
  The scan invariant: after a non-empty list, \<open>closestImg\<close> is the item at the first
  index of least distance, and \<open>minDistance\<close> is that distance.
\<close>

lemma scan_fold:
  fixes xs :: "('img \<times> position) list"
  assumes "xs \<noteq> []"
  shows "\<exists>i<length xs.
           foldl (scanStep c) (None, None) xs
             = (Some (fst (xs ! i)), Some (sweetDistance c (snd (xs ! i))))
           \<and> (\<forall>k<length xs. sweetDistance c (snd (xs ! i)) \<le> sweetDistance c (snd (xs ! k)))
           \<and> (\<forall>k<i. sweetDistance c (snd (xs ! i)) < sweetDistance c (snd (xs ! k)))"
  using assms
proof (induction xs rule: rev_induct)
  case Nil
  then show ?case by simp
next
  case (snoc x xs)
  show ?case
  proof (cases "xs = []")
    case True
    then show ?thesis by (simp add: scanStep_def)
  next
    case False
    from snoc.IH [OF False] obtain i where i: "i < length xs"
      and eq: "foldl (scanStep c) (None, None) xs
                 = (Some (fst (xs ! i)), Some (sweetDistance c (snd (xs ! i))))"
      and least: "\<forall>k<length xs. sweetDistance c (snd (xs ! i)) \<le> sweetDistance c (snd (xs ! k))"
      and first: "\<forall>k<i. sweetDistance c (snd (xs ! i)) < sweetDistance c (snd (xs ! k))"
      by blast
    show ?thesis
    proof (cases "sweetDistance c (snd x) < sweetDistance c (snd (xs ! i))")
      case True
      have res: "foldl (scanStep c) (None, None) (xs @ [x])
                   = (Some (fst x), Some (sweetDistance c (snd x)))"
        using eq True by (simp add: scanStep_def)
      have below: "sweetDistance c (snd x) < sweetDistance c (snd (xs ! k))"
        if "k < length xs" for k
        using True least that by fastforce
      show ?thesis
      proof (intro exI [of _ "length xs"] conjI allI impI)
        show "length xs < length (xs @ [x])" by simp
        show "foldl (scanStep c) (None, None) (xs @ [x])
                = (Some (fst ((xs @ [x]) ! length xs)),
                   Some (sweetDistance c (snd ((xs @ [x]) ! length xs))))"
          using res by simp
        show "sweetDistance c (snd ((xs @ [x]) ! length xs))
                \<le> sweetDistance c (snd ((xs @ [x]) ! k))"
          if "k < length (xs @ [x])" for k
        proof (cases "k < length xs")
          case True
          with below [of k] show ?thesis by (simp add: nth_append)
        next
          case False
          with that have "k = length xs" by simp
          then show ?thesis by simp
        qed
        show "sweetDistance c (snd ((xs @ [x]) ! length xs))
                < sweetDistance c (snd ((xs @ [x]) ! k))"
          if "k < length xs" for k
          using below [OF that] that by (simp add: nth_append)
      qed
    next
      case False
      have res: "foldl (scanStep c) (None, None) (xs @ [x])
                   = (Some (fst (xs ! i)), Some (sweetDistance c (snd (xs ! i))))"
        using eq False by (simp add: scanStep_def)
      show ?thesis
      proof (intro exI [of _ i] conjI allI impI)
        show "i < length (xs @ [x])" using i by simp
        show "foldl (scanStep c) (None, None) (xs @ [x])
                = (Some (fst ((xs @ [x]) ! i)), Some (sweetDistance c (snd ((xs @ [x]) ! i))))"
          using res i by (simp add: nth_append)
        show "sweetDistance c (snd ((xs @ [x]) ! i)) \<le> sweetDistance c (snd ((xs @ [x]) ! k))"
          if "k < length (xs @ [x])" for k
        proof (cases "k < length xs")
          case True
          with least i show ?thesis by (simp add: nth_append)
        next
          case nk: False
          with that have "k = length xs" by simp
          with False i show ?thesis by (simp add: nth_append)
        qed
        show "sweetDistance c (snd ((xs @ [x]) ! i)) < sweetDistance c (snd ((xs @ [x]) ! k))"
          if "k < i" for k
          using first that i by (simp add: nth_append)
      qed
    qed
  qed
qed

lemma sweetDistance_eq: "sweetDistance c p = \<bar>pos_z p + c - (- 200)\<bar>"
  by (simp add: sweetDistance_def SWEET_SPOT_Z_def)

lemma closestScan_empty: "closestScan [] poss c = (None, None)"
  by (simp add: closestScan_def)

lemma closestScan_nonempty:
  assumes "length poss = length imgs" and "imgs \<noteq> []"
  shows "\<exists>i<length imgs.
           closestScan imgs poss c = (Some (imgs ! i), Some (sweetDistance c (poss ! i)))
           \<and> (\<forall>k<length imgs. sweetDistance c (poss ! i) \<le> sweetDistance c (poss ! k))
           \<and> (\<forall>k<i. sweetDistance c (poss ! i) < sweetDistance c (poss ! k))"
proof -
  from assms have ne: "zip imgs poss \<noteq> []" by (cases imgs; cases poss) simp_all
  from assms(1) have len: "length (zip imgs poss) = length imgs" by simp
  from scan_fold [OF ne, of c] obtain i where i: "i < length (zip imgs poss)"
    and eq: "foldl (scanStep c) (None, None) (zip imgs poss)
               = (Some (fst (zip imgs poss ! i)), Some (sweetDistance c (snd (zip imgs poss ! i))))"
    and least: "\<forall>k<length (zip imgs poss).
        sweetDistance c (snd (zip imgs poss ! i)) \<le> sweetDistance c (snd (zip imgs poss ! k))"
    and first: "\<forall>k<i.
        sweetDistance c (snd (zip imgs poss ! i)) < sweetDistance c (snd (zip imgs poss ! k))"
    by blast
  from i len assms(1) have i': "i < length imgs" "i < length poss" by simp_all
  show ?thesis
  proof (intro exI [of _ i] conjI allI impI)
    show "i < length imgs" by (rule i'(1))
    show "closestScan imgs poss c = (Some (imgs ! i), Some (sweetDistance c (poss ! i)))"
      using eq i' by (simp add: closestScan_def)
    show "sweetDistance c (poss ! i) \<le> sweetDistance c (poss ! k)" if "k < length imgs" for k
      using least that i' assms(1) by simp
    show "sweetDistance c (poss ! i) < sweetDistance c (poss ! k)" if "k < i" for k
      using first that i' by simp
  qed
qed

text \<open>
  Claim C2, as the code has it. For every list of items with their positions and every
  camera depth, the distance of an item is \<open>|relativeDepth - (-200)|\<close> with
  \<open>relativeDepth = item.z + cameraDepth\<close>. The resolver returns none exactly when no item
  has a distance below 1000 (the list is empty, or the least distance is 1000 or more);
  otherwise it returns the item at the first index of least distance, so that on ties
  the first item in iteration order wins. For items with relative depths
  \<open>[-2000, -205, -800]\<close> it picks the one at \<open>-205\<close>.
\<close>

theorem resolve_closest:
  assumes "length poss = length imgs"
  shows "(resolve imgs poss c = None)
           = (\<forall>k<length imgs. 1000 \<le> \<bar>pos_z (poss ! k) + c - (- 200)\<bar>)
       \<and> (resolve imgs poss c = Some img \<longrightarrow>
            (\<exists>i<length imgs. img = imgs ! i
               \<and> \<bar>pos_z (poss ! i) + c - (- 200)\<bar> < 1000
               \<and> (\<forall>k<length imgs.
                     \<bar>pos_z (poss ! i) + c - (- 200)\<bar> \<le> \<bar>pos_z (poss ! k) + c - (- 200)\<bar>)
               \<and> (\<forall>k<i.
                     \<bar>pos_z (poss ! i) + c - (- 200)\<bar> < \<bar>pos_z (poss ! k) + c - (- 200)\<bar>)))
       \<and> (map (\<lambda>p. pos_z p + c) poss = [- 2000, - 205, - 800] \<longrightarrow>
            resolve imgs poss c = Some (imgs ! 1))"
proof (cases "imgs = []")
  case True
  with assms show ?thesis by (simp add: resolve_def closestScan_empty)
next
  case False
  from closestScan_nonempty [OF assms False, of c] obtain i where i: "i < length imgs"
    and eq: "closestScan imgs poss c = (Some (imgs ! i), Some (sweetDistance c (poss ! i)))"
    and least: "\<forall>k<length imgs. sweetDistance c (poss ! i) \<le> sweetDistance c (poss ! k)"
    and first: "\<forall>k<i. sweetDistance c (poss ! i) < sweetDistance c (poss ! k)"
    by blast
  have res: "resolve imgs poss c
               = (if sweetDistance c (poss ! i) < 1000 then Some (imgs ! i) else None)"
    using eq by (simp add: resolve_def)
  have none: "(resolve imgs poss c = None)
           = (\<forall>k<length imgs. 1000 \<le> sweetDistance c (poss ! k))"
  proof (cases "sweetDistance c (poss ! i) < 1000")
    case True
    with res i show ?thesis by (auto simp add: not_le)
  next
    case False
    with res least show ?thesis by fastforce
  qed
  have some: "\<exists>j<length imgs. img = imgs ! j
               \<and> sweetDistance c (poss ! j) < 1000
               \<and> (\<forall>k<length imgs. sweetDistance c (poss ! j) \<le> sweetDistance c (poss ! k))
               \<and> (\<forall>k<j. sweetDistance c (poss ! j) < sweetDistance c (poss ! k))"
    if "resolve imgs poss c = Some img"
  proof -
    from that res have "sweetDistance c (poss ! i) < 1000" "img = imgs ! i"
      by (simp_all split: if_splits)
    with i least first show ?thesis by blast
  qed
  have example: "resolve imgs poss c = Some (imgs ! 1)"
    if depths: "map (\<lambda>p. pos_z p + c) poss = [- 2000, - 205, - 800]"
  proof -
    from depths obtain p0 p1 p2 where poss: "poss = [p0, p1, p2]"
      and z: "pos_z p0 + c = - 2000" "pos_z p1 + c = - 205" "pos_z p2 + c = - 800"
      by auto
    from poss assms obtain a b d where imgs: "imgs = [a, b, d]"
      by (cases imgs; cases "tl imgs"; cases "tl (tl imgs)") auto
    have d: "sweetDistance c p0 = 1800" "sweetDistance c p1 = 5"
      "sweetDistance c p2 = 600"
      unfolding sweetDistance_eq z by simp_all
    show ?thesis
      by (simp add: poss imgs resolve_def closestScan_def scanStep_def d)
  qed
  from none some example show ?thesis by (simp add: sweetDistance_eq)
qed

theorem resolve_closest_witness:
  "length (positions exampleImages) = length exampleImages
   \<and> resolve exampleImages (positions exampleImages) 1000 = Some 3
   \<and> resolve exampleImages (positions exampleImages) (- 3000) = None
   \<and> length specPositions = length [10, 11, 12 :: nat]
   \<and> map pos_z specPositions = [- 2000, - 205, - 800]
   \<and> resolve [10, 11, 12 :: nat] specPositions 0 = Some 11"
  using resolve_closest [of "positions exampleImages" exampleImages 1000 3]
    resolve_closest [of specPositions "[10, 11, 12 :: nat]" 0 11]
  by (simp add: positions_length specPositions_def)
     (simp add: eval_defs)

text \<open>
  The claim as stated has the resolver return none exactly when the least distance
  exceeds 1000. With the five example items and the camera at \<open>-1200\<close> the distances are
  1000, 1400, 1800, 2200 and 2600: the least distance is 1000, which does not exceed
  1000, and yet the resolver returns none, since the test is \<open>minDistance < 1000\<close>.
\<close>

theorem resolve_cutoff_counterexample:
  "map (sweetDistance (- 1200)) (positions exampleImages) = [1000, 1400, 1800, 2200, 2600]
   \<and> \<not> (1000 < Min (set (map (sweetDistance (- 1200)) (positions exampleImages))))
   \<and> resolve exampleImages (positions exampleImages) (- 1200) = None"
  by (simp add: eval_defs)

section \<open>Pinch to open, pinch to close\<close>

lemma handlePinch_z: "zPosition (handlePinch imgs r s p) = zPosition s"
  by (simp add: handlePinch_def Let_def split: option.splits)

lemma handlePinch_isPinching: "isPinching (handlePinch imgs r s p) = p"
  by (simp add: handlePinch_def Let_def split: option.splits)

text \<open>
  Claim C1, as the code has it. When a pinch-open occurs (a pinch whose handler has the
  modal closed), the selection is resolved against the raw camera-depth scalar
  \<open>zPosition\<close>, the target the spring eases towards: the outcome is that of the resolver
  at \<open>zPosition\<close>, and the spring-eased depth \<open>smoothZ\<close> shown on screen has no influence
  on it, neither its value now nor its value at the handler's render.
\<close>

theorem handlePinch_uses_zPosition:
  "\<not> isModalOpen r \<Longrightarrow>
     handlePinch imgs r s True =
       (case resolve imgs (positions imgs) (zPosition s) of
          Some img \<Rightarrow> s\<lparr>isPinching := True, selectedProduct := Some img, isModalOpen := True,
                        handVelocity := 0\<rparr>
        | None \<Rightarrow> s\<lparr>isPinching := True\<rparr>)
     \<and> handlePinch imgs r (s\<lparr>smoothZ := v\<rparr>) True = (handlePinch imgs r s True)\<lparr>smoothZ := v\<rparr>
     \<and> handlePinch imgs (r\<lparr>smoothZ := v\<rparr>) s True = handlePinch imgs r s True"
  by (simp add: handlePinch_def Let_def split: option.splits)

theorem handlePinch_uses_zPosition_witness:
  "\<not> isModalOpen pressedState
   \<and> handlePinch exampleImages pressedState draggedState True
       = draggedState\<lparr>isPinching := True, selectedProduct := Some 3, isModalOpen := True,
                       handVelocity := 0\<rparr>
   \<and> handlePinch exampleImages pressedState (draggedState\<lparr>smoothZ := 700\<rparr>) True
       = (handlePinch exampleImages pressedState draggedState True)\<lparr>smoothZ := 700\<rparr>"
proof -
  have closed: "\<not> isModalOpen pressedState" by (simp add: pressedState_def)
  have z: "zPosition draggedState = 1000" by (simp add: draggedState_def)
  from handlePinch_uses_zPosition [OF closed, of exampleImages draggedState 700]
  show ?thesis
    using closed by (simp add: z resolve_example1000)
qed

text \<open>
  The claim as stated has the selection resolved against the depth on screen. After a
  drag of 400 the camera depth is 1000 while the spring has not moved and the depth on
  screen is still 0. Resolving against the depth on screen would pick product 0; the
  pinch picks product 3, the closest at camera depth 1000.
\<close>

theorem handlePinch_smoothZ_counterexample:
  "run exampleImages (False, initial, initial) [PointerDown 0, Render, PointerMove 400]
       = Some (False, pressedState, draggedState)
   \<and> zPosition draggedState = 1000 \<and> smoothZ draggedState = 0
   \<and> resolve exampleImages (positions exampleImages) (smoothZ draggedState) = Some 0
   \<and> selectedProduct (handlePinch exampleImages pressedState draggedState True) = Some 3"
proof -
  have "run exampleImages (False, initial, initial) [PointerDown 0, Render, PointerMove 400]
          = Some (False, pressedState, draggedState)"
    by (simp add: handlePointerDown_def handlePointerMove_def initial_def pressedState_def
        draggedState_def)
  moreover have z: "zPosition draggedState = 1000" "smoothZ draggedState = 0"
    by (simp_all add: draggedState_def)
  moreover have "resolve exampleImages (positions exampleImages) (smoothZ draggedState) = Some 0"
    by (simp add: z resolve_example0)
  moreover have "\<not> isModalOpen pressedState" by (simp add: pressedState_def)
  then have "selectedProduct (handlePinch exampleImages pressedState draggedState True) = Some 3"
    by (simp add: handlePinch_def z resolve_example1000)
  ultimately show ?thesis by blast
qed



section \<open>The event loop: what is reachable\<close>

lemma dispatch_isPinching:
  "isPinching (foldl (dispatch imgs r) s cbs) = last (isPinching s # pinchEvents cbs)"
proof (induction cbs arbitrary: s)
  case Nil
  show ?case by simp
next
  case (Cons cb cbs)
  show ?case by (cases cb) (simp_all add: Cons.IH handleHandMove_keeps handlePinch_isPinching)
qed

lemma handlers_isPinching:
  "isPinching (animationFrame r s) = isPinching s"
  "isPinching (handlePointerDown r s c) = isPinching s"
  "isPinching (handlePointerMove r s c) = isPinching s"
  "isPinching (handleWheel r s c) = isPinching s"
  "isPinching (handlePointerUp s) = isPinching s"
  "isPinching (onClose s) = isPinching s"
  by (simp_all add: animationFrame_def handlePointerDown_def handlePointerMove_def
      handleWheel_def handlePointerUp_def onClose_def Let_def)

text \<open>The pinch flag of \<open>App\<close> always equals \<open>wasPinchingRef\<close>.\<close>

lemma step_sync:
  assumes "isPinching s = w" and "step imgs (w, r, s) e = Some (w', r', s')"
  shows "isPinching s' = w'"
proof (cases e)
  case (Capture f)
  with assms(2) obtain cbs where pw: "predictWebcam w f = Some (cbs, w')"
    and s': "s' = foldl (dispatch imgs r) s cbs"
    by (auto split: option.splits)
  from pw have "pinchEvents cbs = (if w' \<noteq> w then [w'] else [])" by (rule predictWebcam_edge)
  with s' assms(1) show ?thesis by (simp add: dispatch_isPinching)
qed (use assms in \<open>auto simp add: handlers_isPinching\<close>)

lemma reachable_sync: "reachable imgs st \<Longrightarrow> isPinching (snd (snd st)) = fst st"
proof (induction rule: reachable.induct)
  case start
  show ?case by (simp add: initial_def)
next
  case (next_state st e st')
  obtain w r s where st: "st = (w, r, s)" by (cases st)
  obtain w' r' s' where st': "st' = (w', r', s')" by (cases st')
  from next_state.IH st have "isPinching s = w" by simp
  moreover from next_state.hyps(2) st st'
  have "step imgs (w, r, s) e = Some (w', r', s')" by simp
  ultimately have "isPinching s' = w'" by (rule step_sync)
  with st' show ?case by simp
qed

lemma run_reachable:
  "reachable imgs st \<Longrightarrow> run imgs st es = Some st' \<Longrightarrow> reachable imgs st'"
proof (induction es arbitrary: st)
  case Nil
  then show ?case by simp
next
  case (Cons e es)
  then obtain st1 where st1: "step imgs st e = Some st1" and r: "run imgs st1 es = Some st'"
    by (auto split: option.splits)
  from Cons.prems(1) st1 have "reachable imgs st1" by (rule reachable.next_state)
  from Cons.IH [OF this r] show ?case .
qed

lemma capture_moving:
  "step exampleImages (False, initial, initial) (Capture (handFrame openHand))
     = Some (False, initial, movingState)"
  by (simp add: openHand_frame handleHandMove_def initial_def movingState_def)

lemma capture_pinched:
  "step exampleImages (False, initial, initial) (Capture (handFrame pinchedHand))
     = Some (True, initial, pinchedState)"
  by (simp add: pinchedHand_frame handleHandMove_def handlePinch_def initial_def
      resolve_example0 pinchedState_def)

lemma capture_pinched_stale:
  "step exampleImages (False, movingState, movingState) (Capture (handFrame pinchedHand))
     = Some (True, movingState, pinchedState)"
  by (simp add: pinchedHand_frame handleHandMove_def handlePinch_def movingState_def
      resolve_example0 pinchedState_def)

lemma run_pinched:
  "run exampleImages (False, initial, initial) [Capture (handFrame pinchedHand), Render]
     = Some (True, pinchedState, pinchedState)"
  using capture_pinched by simp

lemma reachable_pinched: "reachable exampleImages (True, pinchedState, pinchedState)"
  using run_reachable [OF reachable.start run_pinched] .

lemma run_stale:
  "run exampleImages (False, initial, initial)
       [Capture (handFrame openHand), Render, Capture (handFrame pinchedHand)]
     = Some (True, movingState, pinchedState)"
  using capture_moving capture_pinched_stale by simp

section \<open>InteractionRouter: the modal and the camera\<close>

text \<open>
  What the guards give: a handler whose render has the modal open leaves the camera
  depth as it is and sets the gesture velocity to zero.
\<close>

lemma guards_of_render:
  assumes "isModalOpen r"
  shows "animationFrame r s = s" and "handlePointerDown r s c = s"
    and "handlePointerMove r s c = s" and "handleWheel r s d = s"
    and "handVelocity (handleHandMove r s y detected) = 0"
  using assms
  by (simp_all add: animationFrame_def handlePointerDown_def handlePointerMove_def
      handleWheel_def handleHandMove_def)

text \<open>
  Claim C3 says that whenever \<open>isModalOpen\<close> is true the camera depth is never changed
  and the gesture velocity is forced to zero. The guards of the handlers test the
  \<open>isModalOpen\<close> of their render, and the code does not keep the claim between the pinch
  that opens the modal and the next render. An open hand at the top of the picture sets
  the gesture velocity to 8.75; after the render, a pinch opens the modal on product 0
  and sets the velocity to 0. The animation-frame callback still registered is the one
  of the render before: it adds 8.75 to the camera depth although \<open>isModalOpen\<close> is
  true. A capture frame in place of the animation frame sets the gesture velocity back to
  8.75 in the same way.
\<close>

theorem stale_frame_moves_camera:
  "run exampleImages (False, initial, initial)
       [Capture (handFrame openHand), Render, Capture (handFrame pinchedHand)]
     = Some (True, movingState, pinchedState)
   \<and> isModalOpen pinchedState \<and> zPosition pinchedState = 0 \<and> handVelocity pinchedState = 0
   \<and> step exampleImages (True, movingState, pinchedState) AnimationFrame
       = Some (True, movingState, pinchedState\<lparr>zPosition := 8.75\<rparr>)
   \<and> step exampleImages (True, movingState, pinchedState) (Capture (handFrame pinchedHand))
       = Some (True, movingState, pinchedState\<lparr>handVelocity := 8.75\<rparr>)"
proof -
  have "step exampleImages (True, movingState, pinchedState) AnimationFrame
       = Some (True, movingState, pinchedState\<lparr>zPosition := 8.75\<rparr>)"
    by (simp add: animationFrame_def movingState_def pinchedState_def)
  moreover have
    "step exampleImages (True, movingState, pinchedState) (Capture (handFrame pinchedHand))
       = Some (True, movingState, pinchedState\<lparr>handVelocity := 8.75\<rparr>)"
    by (simp add: pinchedHand_frame handleHandMove_def movingState_def pinchedState_def)
  moreover have "isModalOpen pinchedState" "zPosition pinchedState = 0"
    "handVelocity pinchedState = 0"
    by (simp_all add: pinchedState_def)
  ultimately show ?thesis using run_stale by blast
qed

theorem stale_frame_moves_camera_witness:
  "reachable exampleImages (True, movingState, pinchedState\<lparr>zPosition := 8.75\<rparr>)
   \<and> isModalOpen (pinchedState\<lparr>zPosition := 8.75\<rparr>)
   \<and> zPosition (pinchedState\<lparr>zPosition := 8.75\<rparr>) = 8.75"
proof -
  from stale_frame_moves_camera have
    r: "run exampleImages (False, initial, initial)
         [Capture (handFrame openHand), Render, Capture (handFrame pinchedHand)]
       = Some (True, movingState, pinchedState)"
    and f: "step exampleImages (True, movingState, pinchedState) AnimationFrame
       = Some (True, movingState, pinchedState\<lparr>zPosition := 8.75\<rparr>)"
    by blast+
  from run_reachable [OF reachable.start r] f
  have "reachable exampleImages (True, movingState, pinchedState\<lparr>zPosition := 8.75\<rparr>)"
    by (rule reachable.next_state)
  then show ?thesis by (simp add: pinchedState_def)
qed

section \<open>GestureInterpreter: losing the hand\<close>

text \<open>
  Claim C9. On a frame on which the detector finds no hand, the callbacks are a hand
  move with vertical position 0.5 and \<open>detected = false\<close>, followed by a pinch event
  \<open>false\<close> if a pinch was latched from an earlier frame; the latch is cleared. In every
  reachable state the application then is not pinching, has no hand detected and has
  gesture velocity zero: the pinch state never stays latched after tracking is lost.
\<close>

theorem noHand_releases_pinch:
  assumes "reachable imgs (w, r, s)" and "noHand f"
  shows "predictWebcam w f =
           Some (OnHandMove 0.5 False # (if w then [OnPinch False] else []), False)
         \<and> (case step imgs (w, r, s) (Capture f) of
               None \<Rightarrow> False
             | Some (w', r', s') \<Rightarrow>
                 \<not> w' \<and> \<not> isPinching s' \<and> \<not> isHandDetected s' \<and> handVelocity s' = 0)"
proof -
  from assms(2) obtain res where f: "f = Results res" and res: "res = None \<or> res = Some []"
    unfolding noHand_def by blast
  from res have pw: "predictWebcam w (Results res) =
      Some (OnHandMove 0.5 False # (if w then [OnPinch False] else []), False)"
    by (rule predictWebcam_noHand)
  have hm: "\<not> isHandDetected (handleHandMove r s 0.5 False)"
     "handVelocity (handleHandMove r s 0.5 False) = 0"
    by (simp_all add: handleHandMove_def)
  have hp: "isHandDetected (handlePinch imgs r t False) = isHandDetected t"
     "handVelocity (handlePinch imgs r t False) = handVelocity t"
     "\<not> isPinching (handlePinch imgs r t False)" for t
    by (simp_all add: handlePinch_def)
  from assms(1) have sync: "isPinching s = w" using reachable_sync by fastforce
  show ?thesis
  proof (cases w)
    case True
    with pw f hm hp show ?thesis by simp
  next
    case False
    with pw f hm sync show ?thesis by (simp add: handleHandMove_keeps)
  qed
qed

theorem noHand_releases_pinch_witness:
  "reachable exampleImages (True, pinchedState, pinchedState) \<and> noHand (Results None)
   \<and> predictWebcam True (Results None) = Some ([OnHandMove 0.5 False, OnPinch False], False)
   \<and> step exampleImages (True, pinchedState, pinchedState) (Capture (Results None))
       = Some (False, pinchedState, pinchedState\<lparr>isHandDetected := False, isPinching := False\<rparr>)"
  using noHand_releases_pinch [OF reachable_pinched, of "Results None"] reachable_pinched
  by (simp add: noHand_def handleHandMove_def handlePinch_def pinchedState_def)

section \<open>VelocityController: the velocity law\<close>

text \<open>
  Claim C5, as the code has it. The velocity set by a hand move is 0 when no hand is
  detected, whatever the vertical position; it is 0 while the modal is open, as the
  handler has it; otherwise it is exactly 0 for every vertical position in
  \<open>[0.35, 0.65]\<close>, and \<open>sign(0.5 - y) * (|0.5 - y| - 0.15) * 25\<close> outside that band.
\<close>

theorem handleHandMove_velocity:
  "handVelocity (handleHandMove r s y detected) =
     (if \<not> detected then 0
      else if isModalOpen r then 0
      else if 0.35 \<le> y \<and> y \<le> 0.65 then 0
      else sgn (0.5 - y) * (\<bar>0.5 - y\<bar> - 0.15) * 25)"
  by (auto simp add: handleHandMove_def Let_def abs_if sgn_if split: if_splits)

theorem handleHandMove_velocity_witness:
  "handVelocity (handleHandMove (initial :: nat app) initial 0.1 True) = 6.25
   \<and> handVelocity (handleHandMove (initial :: nat app) initial 0.35 True) = 0
   \<and> handVelocity (handleHandMove (initial :: nat app) initial 0.9 True) = - 6.25
   \<and> handVelocity (handleHandMove (initial :: nat app) initial 0.9 False) = 0
   \<and> handVelocity (handleHandMove pinchedState pinchedState 0.1 True) = 0"
  using handleHandMove_velocity [of "initial :: nat app" "initial :: nat app" "0.1" True]
    handleHandMove_velocity [of "initial :: nat app" "initial :: nat app" "0.35" True]
    handleHandMove_velocity [of "initial :: nat app" "initial :: nat app" "0.9" True]
    handleHandMove_velocity [of "initial :: nat app" "initial :: nat app" "0.9" False]
    handleHandMove_velocity [of pinchedState pinchedState "0.1" True]
  by (simp add: initial_def pinchedState_def)

text \<open>
  The claim as stated gives the velocity law for every detected hand outside the band.
  While the modal is open the handler sets the velocity to 0 instead: after a pinch has
  opened the modal, a hand at vertical position 0.1 yields velocity 0, not 6.25.
\<close>

theorem handleHandMove_modal_counterexample:
  "run exampleImages (False, initial, initial) [Capture (handFrame pinchedHand), Render]
       = Some (True, pinchedState, pinchedState)
   \<and> handVelocity (handleHandMove pinchedState pinchedState 0.1 True) = 0
   \<and> sgn (0.5 - 0.1) * (\<bar>0.5 - 0.1\<bar> - 0.15) * 25 = (6.25 :: real)"
  by (intro conjI run_pinched) (simp_all add: handleHandMove_def pinchedState_def)

end
